theory Spec2Isabelle
  imports Main
begin

section \<open>The chord progression engine of createChordProgression.js\<close>

text \<open>
  JavaScript values are modelled as follows. A string is a \<^typ>\<open>string\<close>, one character
  per code unit; the model is exact on ASCII strings: \<open>toLowerCase\<close> and \<open>toUpperCase\<close>
  map the ASCII letters, the only letters the key vocabulary (note letters, accidentals,
  mode words) is made of, and leave every other character as it is. Numbers are integers
  (\<^typ>\<open>int\<close>): every number the engine computes from an integer chord count and an
  integer octave is an integer, which JavaScript represents exactly up to \<open>2^53\<close>. A lookup that yields \<open>undefined\<close> in the source yields
  \<^term>\<open>None\<close> here. A \<open>throw\<close> is a result \<^term>\<open>Inl e\<close>, the error carrying the
  value interpolated into the message.
\<close>

datatype error =
    InvalidKeyFormat string    \<comment> \<open>\<open>Invalid key format: ${key}. Expected format: ...\<close>\<close>
  | InvalidRootNote string     \<comment> \<open>\<open>Invalid root note: ${root}. Valid notes: ...\<close>\<close>
  | InvalidScaleRoot string    \<comment> \<open>\<open>Invalid root note: ${root}\<close> of getScaleDegreeNote\<close>
  | InvalidNoteName string     \<comment> \<open>\<open>Invalid note name: ${noteName}\<close>\<close>
  | InvalidChordCount int      \<comment> \<open>\<open>numChords must be between 2 and 6, got ${numChords}\<close>\<close>
  | TypeError                  \<comment> \<open>\<open>forEach\<close> called on \<open>undefined\<close>\<close>

text \<open>An element of a chord's pitch array: a string, or \<open>NaN\<close> (\<open>undefined + number\<close>).\<close>

datatype jsvalue = JStr string | JNaN

record keyInfo =
  keyRoot :: string
  keyIsMinor :: bool

subsection \<open>Constant tables\<close>

definition NOTE_TO_MIDI :: "string \<rightharpoonup> int" where
  "NOTE_TO_MIDI = map_of
     [(''C'', 60), (''C#'', 61), (''Db'', 61), (''D'', 62), (''D#'', 63), (''Eb'', 63),
      (''E'', 64), (''F'', 65), (''F#'', 66), (''Gb'', 66), (''G'', 67), (''G#'', 68),
      (''Ab'', 68), (''A'', 69), (''A#'', 70), (''Bb'', 70), (''B'', 71)]"

definition MAJOR_TRIAD :: "int list" where
  "MAJOR_TRIAD = [0, 4, 7]"

definition MINOR_TRIAD :: "int list" where
  "MINOR_TRIAD = [0, 3, 7]"

definition MAJOR_SCALE :: "int list" where
  "MAJOR_SCALE = [0, 2, 4, 5, 7, 9, 11]"

definition MINOR_SCALE :: "int list" where
  "MINOR_SCALE = [0, 2, 3, 5, 7, 8, 10]"

text \<open>The table \<open>midiToNote\<close>, written out twice in the source with the same entries.\<close>

definition midiToNote :: "int \<rightharpoonup> string" where
  "midiToNote = map_of
     [(0, ''C''), (1, ''C#''), (2, ''D''), (3, ''D#''), (4, ''E''), (5, ''F''),
      (6, ''F#''), (7, ''G''), (8, ''G#''), (9, ''A''), (10, ''A#''), (11, ''B'')]"

definition keyPrefs :: "string \<rightharpoonup> string list" where
  "keyPrefs = map_of
     [(''C'',  [''C'', ''D'', ''E'', ''F'', ''G'', ''A'', ''B'']),
      (''Db'', [''Db'', ''Eb'', ''F'', ''Gb'', ''Ab'', ''Bb'', ''C'']),
      (''D'',  [''D'', ''E'', ''F#'', ''G'', ''A'', ''B'', ''C#'']),
      (''Eb'', [''Eb'', ''F'', ''G'', ''Ab'', ''Bb'', ''C'', ''D'']),
      (''E'',  [''E'', ''F#'', ''G#'', ''A'', ''B'', ''C#'', ''D#'']),
      (''F'',  [''F'', ''G'', ''A'', ''Bb'', ''C'', ''D'', ''E'']),
      (''F#'', [''F#'', ''G#'', ''A#'', ''B'', ''C#'', ''D#'', ''E#'']),
      (''Gb'', [''Gb'', ''Ab'', ''Bb'', ''Cb'', ''Db'', ''Eb'', ''F'']),
      (''G'',  [''G'', ''A'', ''B'', ''C'', ''D'', ''E'', ''F#'']),
      (''Ab'', [''Ab'', ''Bb'', ''C'', ''Db'', ''Eb'', ''F'', ''G'']),
      (''A'',  [''A'', ''B'', ''C#'', ''D'', ''E'', ''F#'', ''G#'']),
      (''Bb'', [''Bb'', ''C'', ''D'', ''Eb'', ''F'', ''G'', ''A'']),
      (''B'',  [''B'', ''C#'', ''D#'', ''E'', ''F#'', ''G#'', ''A#''])]"

text \<open>The tables are object literals, and are modelled by their own properties. A read
  \<open>table[key]\<close> also finds the members every object inherits from \<open>Object.prototype\<close>.
  The keys of \<open>midiToNote\<close> and \<open>patterns\<close> are numbers and the names read from
  \<open>NOTE_TO_MIDI\<close> by \<open>noteToMidi\<close> are entries of the tables, none of them such a member;
  but the root of a key can be one (the key \<open>__proto__\<close> parses to the root
  \<open>__proto__\<close>), and then \<open>NOTE_TO_MIDI[root]\<close> is an object or a function: neither
  \<open>undefined\<close> nor falsy.\<close>

definition inheritedMembers :: "string list" where
  "inheritedMembers =
     [''constructor'', ''__defineGetter__'', ''__defineSetter__'', ''hasOwnProperty'',
      ''__lookupGetter__'', ''__lookupSetter__'', ''isPrototypeOf'', ''propertyIsEnumerable'',
      ''toString'', ''valueOf'', ''__proto__'', ''toLocaleString'']"

definition patterns :: "int \<rightharpoonup> int list" where
  "patterns = map_of
     [(2, [1, 5]),
      (3, [1, 4, 5]),
      (4, [1, 4, 5, 1]),
      (5, [1, 6, 4, 5, 1]),
      (6, [1, 6, 4, 5, 1, 4])]"

subsection \<open>JavaScript primitives\<close>

text \<open>The remainder operator \<open>%\<close>: the sign of the dividend, the magnitude of
  \<open>|a| mod |b|\<close>. It is only applied to the divisors 7 and 12.\<close>

definition js_rem :: "int \<Rightarrow> int \<Rightarrow> int" where
  "js_rem a b = (if a < 0 then - ((- a) mod \<bar>b\<bar>) else a mod \<bar>b\<bar>)"

text \<open>An array read \<open>xs[i]\<close>: \<open>undefined\<close> outside the array.\<close>

definition js_index :: "'a list \<Rightarrow> int \<Rightarrow> 'a option" where
  "js_index xs i = (if 0 \<le> i \<and> i < int (length xs) then Some (xs ! nat i) else None)"

text \<open>The decimal digits of a number, as string concatenation produces them.\<close>

definition digit_char :: "nat \<Rightarrow> char" where
  "digit_char d = char_of (48 + d)"

fun show_nat :: "nat \<Rightarrow> string" where
  "show_nat n = (if n < 10 then [digit_char n] else show_nat (n div 10) @ [digit_char (n mod 10)])"

declare show_nat.simps [simp del]

definition show_int :: "int \<Rightarrow> string" where
  "show_int i = (if i < 0 then CHR ''-'' # show_nat (nat (- i)) else show_nat (nat i))"

definition asciiUpper :: string where
  "asciiUpper = ''ABCDEFGHIJKLMNOPQRSTUVWXYZ''"

definition asciiLower :: string where
  "asciiLower = ''abcdefghijklmnopqrstuvwxyz''"

definition toLowerChar :: "char \<Rightarrow> char" where
  "toLowerChar c = (case map_of (zip asciiUpper asciiLower) c of Some l \<Rightarrow> l | None \<Rightarrow> c)"

definition toUpperChar :: "char \<Rightarrow> char" where
  "toUpperChar c = (case map_of (zip asciiLower asciiUpper) c of Some u \<Rightarrow> u | None \<Rightarrow> c)"

definition toLowerCase :: "string \<Rightarrow> string" where
  "toLowerCase s = map toLowerChar s"

text \<open>White space that \<open>trim\<close> removes: tab, line feed, vertical tab, form feed, carriage
  return, space and the no-break space.\<close>

definition isWhiteSpace :: "char \<Rightarrow> bool" where
  "isWhiteSpace c =
     (c \<in> set [CHR 0x09, CHR 0x0A, CHR 0x0B, CHR 0x0C, CHR 0x0D, CHR 0x20, CHR 0xA0])"

definition trim :: "string \<Rightarrow> string" where
  "trim s = rev (dropWhile isWhiteSpace (rev (dropWhile isWhiteSpace s)))"

fun startsWith :: "string \<Rightarrow> string \<Rightarrow> bool" where
  "startsWith s [] = True"
| "startsWith [] (p # ps) = False"
| "startsWith (c # cs) (p # ps) = (c = p \<and> startsWith cs ps)"

fun includes_str :: "string \<Rightarrow> string \<Rightarrow> bool" where
  "includes_str [] t = (t = [])"
| "includes_str (c # cs) t = (startsWith (c # cs) t \<or> includes_str cs t)"

subsection \<open>parseKey\<close>

text \<open>A regular expression with the flag \<open>i\<close> compares characters after canonicalising
  both to upper case.\<close>

fun startsWith_ci :: "string \<Rightarrow> string \<Rightarrow> bool" where
  "startsWith_ci s [] = True"
| "startsWith_ci [] (p # ps) = False"
| "startsWith_ci (c # cs) (p # ps) = (toUpperChar c = toUpperChar p \<and> startsWith_ci cs ps)"

text \<open>The alternation \<open>minor|min|major|maj|m|M\<close> at the start of a string: the length of
  the first alternative that matches there.\<close>

fun matchIndicator :: "string list \<Rightarrow> string \<Rightarrow> nat option" where
  "matchIndicator [] s = None"
| "matchIndicator (alt # alts) s =
     (if startsWith_ci s alt then Some (length alt) else matchIndicator alts s)"

definition indicatorAlternatives :: "string list" where
  "indicatorAlternatives = [''minor'', ''min'', ''major'', ''maj'', ''m'', ''M'']"

text \<open>\<open>.replace(/minor|min|major|maj|m|M/gi, '')\<close>: scanning from the left, every match
  is removed and the scan goes on behind it; a character where nothing matches is kept.
  Every alternative has at least one character, so a match at \<open>c # cs\<close> of length \<open>k\<close>
  leaves \<open>drop (k - 1) cs\<close>.\<close>

fun replaceIndicators :: "string \<Rightarrow> string" where
  "replaceIndicators [] = []"
| "replaceIndicators (c # cs) =
     (case matchIndicator indicatorAlternatives (c # cs) of
        Some k \<Rightarrow> replaceIndicators (drop (k - 1) cs)
      | None \<Rightarrow> c # replaceIndicators cs)"

definition isNoteLetter :: "char \<Rightarrow> bool" where
  "isNoteLetter c = (toUpperChar c \<in> set ''ABCDEFG'')"

definition isAccidental :: "char \<Rightarrow> bool" where
  "isAccidental c = (c = CHR ''#'' \<or> toUpperChar c = CHR ''B'')"

definition isModeLetter :: "char \<Rightarrow> bool" where
  "isModeLetter c = (toUpperChar c = CHR ''M'')"

text \<open>\<open>.match(/^([A-G][#b]?)(m|M)?$/i)\<close>: the two groups of a match, the second one
  \<open>undefined\<close> when it did not take part.\<close>

fun noteMatch :: "string \<Rightarrow> (string \<times> string option) option" where
  "noteMatch [l] = (if isNoteLetter l then Some ([l], None) else None)"
| "noteMatch [l, a] =
     (if isNoteLetter l \<and> isAccidental a then Some ([l, a], None)
      else if isNoteLetter l \<and> isModeLetter a then Some ([l], Some [a])
      else None)"
| "noteMatch [l, a, m] =
     (if isNoteLetter l \<and> isAccidental a \<and> isModeLetter m then Some ([l, a], Some [m])
      else None)"
| "noteMatch s = None"

text \<open>\<open>root.charAt(0).toUpperCase() + root.slice(1)\<close>\<close>

definition capitalize :: "string \<Rightarrow> string" where
  "capitalize s = (case s of [] \<Rightarrow> [] | c # cs \<Rightarrow> toUpperChar c # cs)"

definition parseKey :: "string \<Rightarrow> keyInfo option" where
  "parseKey keyString =
     (let normalized = trim keyString;
          minorIndicators = [''minor'', ''min'', ''m''];
          isMinor = list_ex (\<lambda>indicator.
                      includes_str (toLowerCase normalized) (toLowerCase indicator))
                    minorIndicators;
          root = trim (replaceIndicators normalized)
      in if root = [] then
           (case noteMatch normalized of
              Some (g1, g2) \<Rightarrow>
                (case g2 of
                   Some m \<Rightarrow>
                     if toLowerCase m = ''m''
                     then Some \<lparr>keyRoot = capitalize g1, keyIsMinor = True\<rparr>
                     else Some \<lparr>keyRoot = capitalize g1, keyIsMinor = False\<rparr>
                 | None \<Rightarrow> Some \<lparr>keyRoot = capitalize g1, keyIsMinor = False\<rparr>)
            | None \<Rightarrow> None)
         else Some \<lparr>keyRoot = capitalize root, keyIsMinor = isMinor\<rparr>)"

subsection \<open>noteToMidi and getScaleDegreeNote\<close>

text \<open>A note name is a string or \<open>undefined\<close>; as a property key \<open>undefined\<close> is the
  string \<open>undefined\<close>, which the table does not have.\<close>

definition noteToMidi :: "string option \<Rightarrow> int \<Rightarrow> error + int" where
  "noteToMidi noteName octave =
     (case noteName of
        None \<Rightarrow> Inl (InvalidNoteName ''undefined'')
      | Some name \<Rightarrow>
          (case NOTE_TO_MIDI name of
             None \<Rightarrow> Inl (InvalidNoteName name)
           | Some baseNote \<Rightarrow> Inr (baseNote + (octave - 4) * 12)))"

definition degreeIndex :: "int \<Rightarrow> int" where
  "degreeIndex degree = js_rem (js_rem (degree - 1) 7 + 7) 7"

text \<open>The result is \<open>preferred || noteName\<close>: the name of the preference table when the
  root has a row, the sharp-spelled chromatic name otherwise (\<open>undefined\<close> when neither
  lookup gives a name). For a root that names an inherited member, \<open>rootMidi\<close> is an object
  or a function, \<open>midiNote\<close> is a string, \<open>noteInOctave\<close> is \<open>NaN\<close> and
  \<open>keyPrefs[root]\<close> has no indexed property: both names are \<open>undefined\<close>.\<close>

definition getScaleDegreeNote :: "string \<Rightarrow> int \<Rightarrow> bool \<Rightarrow> error + string option" where
  "getScaleDegreeNote root degree isMinor =
     (let scale = (if isMinor then MINOR_SCALE else MAJOR_SCALE) in
      case NOTE_TO_MIDI root of
        None \<Rightarrow>
          if root \<in> set inheritedMembers then Inr None else Inl (InvalidScaleRoot root)
      | Some rootMidi \<Rightarrow>
          (let noteName =
                 (case js_index scale (degreeIndex degree) of
                    None \<Rightarrow> None
                  | Some chromaticOffset \<Rightarrow>
                      (let midiNote = rootMidi + chromaticOffset;
                           noteInOctave = js_rem midiNote 12
                       in midiToNote noteInOctave));
               preferred =
                 (case keyPrefs root of
                    None \<Rightarrow> None
                  | Some row \<Rightarrow> js_index row (degreeIndex degree))
           in case preferred of
                Some name \<Rightarrow> Inr (Some name)
              | None \<Rightarrow> Inr noteName))"

subsection \<open>getChordNotes\<close>

text \<open>The body of the loop over the intervals: the label pushed for one pitch.\<close>

definition noteLabel :: "int \<Rightarrow> jsvalue" where
  "noteLabel noteMidi =
     (let octaveNum = noteMidi div 12 - 1;
          noteInOctave = js_rem noteMidi 12
      in case midiToNote noteInOctave of
           None \<Rightarrow> JNaN
         | Some noteName \<Rightarrow> JStr (noteName @ show_int octaveNum))"

definition getChordNotes :: "string \<Rightarrow> int \<Rightarrow> bool \<Rightarrow> int \<Rightarrow> error + jsvalue list" where
  "getChordNotes root degree isMinor octave =
     (case getScaleDegreeNote root degree isMinor of
        Inl e \<Rightarrow> Inl e
      | Inr chordRoot \<Rightarrow>
          (let isChordMinor =
                 (if isMinor then degree \<in> set [1, 4, 5] else degree \<in> set [2, 3, 6]);
               intervals = (if isChordMinor then MINOR_TRIAD else MAJOR_TRIAD)
           in case noteToMidi chordRoot octave of
                Inl e \<Rightarrow> Inl e
              | Inr rootMidi \<Rightarrow>
                  Inr (map (\<lambda>interval. noteLabel (rootMidi + interval)) intervals)))"

subsection \<open>getProgressionDegrees and createChordProgression\<close>

definition getProgressionDegrees :: "int \<Rightarrow> error + int list option" where
  "getProgressionDegrees numChords =
     (if numChords < 2 \<or> numChords > 6 then Inl (InvalidChordCount numChords)
      else Inr (patterns numChords))"

text \<open>The loop \<open>progression.forEach\<close>: one note event per degree, in order, each with the
  pitch array of \<open>getChordNotes(root, degree, isMinor, 4)\<close>; the first throw ends it.\<close>

fun addChords :: "string \<Rightarrow> bool \<Rightarrow> int list \<Rightarrow> error + jsvalue list list" where
  "addChords root isMinor [] = Inr []"
| "addChords root isMinor (degree # rest) =
     (case getChordNotes root degree isMinor 4 of
        Inl e \<Rightarrow> Inl e
      | Inr chordNotes \<Rightarrow>
          (case addChords root isMinor rest of
             Inl e \<Rightarrow> Inl e
           | Inr events \<Rightarrow> Inr (chordNotes # events)))"

text \<open>The result is the track handed to the MIDI writer: the pitch arrays of its note
  events (each a whole note of velocity 100). The writer's byte buffer is the library's.
  The chord count is the argument as the function body sees it, 4 when the caller gave
  none.\<close>

definition createChordProgression :: "string \<Rightarrow> int \<Rightarrow> error + jsvalue list list" where
  "createChordProgression key numChords =
     (case parseKey key of
        None \<Rightarrow> Inl (InvalidKeyFormat key)
      | Some keyInfo \<Rightarrow>
          (let root = keyRoot keyInfo; isMinor = keyIsMinor keyInfo in
           if NOTE_TO_MIDI root = None \<and> root \<notin> set inheritedMembers
           then Inl (InvalidRootNote root)
           else if numChords < 2 \<or> numChords > 6 then Inl (InvalidChordCount numChords)
           else (case getProgressionDegrees numChords of
                   Inl e \<Rightarrow> Inl e
                 | Inr None \<Rightarrow> Inl TypeError
                 | Inr (Some progression) \<Rightarrow> addChords root isMinor progression)))"

section \<open>Properties of the tables and of the arithmetic\<close>

lemma NOTE_TO_MIDI_entries:
  "NOTE_TO_MIDI name = Some v \<Longrightarrow>
     (name, v) \<in> set [(''C'', 60), (''C#'', 61), (''Db'', 61), (''D'', 62), (''D#'', 63), (''Eb'', 63),
      (''E'', 64), (''F'', 65), (''F#'', 66), (''Gb'', 66), (''G'', 67), (''G#'', 68),
      (''Ab'', 68), (''A'', 69), (''A#'', 70), (''Bb'', 70), (''B'', 71)]"
  unfolding NOTE_TO_MIDI_def by (rule map_of_SomeD)

lemma NOTE_TO_MIDI_range:
  "NOTE_TO_MIDI name = Some v \<Longrightarrow> 60 \<le> v \<and> v \<le> 71"
  by (drule NOTE_TO_MIDI_entries) auto

lemma js_rem_nonneg: "0 \<le> a \<Longrightarrow> 0 < b \<Longrightarrow> js_rem a b = a mod b"
  by (simp add: js_rem_def)

lemma js_rem_neg: "a < 0 \<Longrightarrow> 0 < b \<Longrightarrow> js_rem a b = - ((- a) mod b)"
  by (simp add: js_rem_def)

lemma degreeIndex_mod: "degreeIndex degree = (degree - 1) mod 7"
proof (cases "degree - 1 < 0")
  case True
  have bounds: "0 \<le> (- (degree - 1)) mod 7" "(- (degree - 1)) mod 7 < 7" by simp_all
  have "js_rem (degree - 1) 7 = - ((- (degree - 1)) mod 7)"
    using True by (simp add: js_rem_neg)
  moreover have "0 \<le> - ((- (degree - 1)) mod 7) + 7" using bounds by linarith
  ultimately have "degreeIndex degree = (- ((- (degree - 1)) mod 7) + 7) mod 7"
    by (simp add: degreeIndex_def js_rem_nonneg)
  also have "\<dots> = (- ((- (degree - 1)) mod 7)) mod 7" by simp
  also have "\<dots> = (- (- (degree - 1))) mod 7" by (rule mod_minus_eq)
  finally show ?thesis by simp
next
  case False
  then have "js_rem (degree - 1) 7 = (degree - 1) mod 7" by (simp add: js_rem_nonneg)
  moreover have "0 \<le> (degree - 1) mod 7 + 7" by simp
  ultimately have "degreeIndex degree = ((degree - 1) mod 7 + 7) mod 7"
    by (simp add: degreeIndex_def js_rem_nonneg)
  then show ?thesis by simp
qed

lemma degreeIndex_range: "0 \<le> degreeIndex degree \<and> degreeIndex degree < 7"
  by (simp add: degreeIndex_mod)

lemma degreeIndex_cases: "degreeIndex degree \<in> {0, 1, 2, 3, 4, 5, 6}"
  using degreeIndex_range [of degree] by auto

lemma degreeIndex_period: "degreeIndex (degree + 7) = degreeIndex degree"
proof -
  have "degree + 7 - 1 = degree - 1 + 7" by simp
  then have "degreeIndex (degree + 7) = (degree - 1 + 7) mod 7" by (simp only: degreeIndex_mod)
  then show ?thesis by (simp only: degreeIndex_mod mod_add_self2)
qed

lemma midiToNote_total: "0 \<le> k \<Longrightarrow> k < 12 \<Longrightarrow> \<exists>n. midiToNote k = Some n"
proof -
  assume "0 \<le> k" "k < 12"
  then have "k = 0 \<or> k = 1 \<or> k = 2 \<or> k = 3 \<or> k = 4 \<or> k = 5 \<or> k = 6 \<or> k = 7
      \<or> k = 8 \<or> k = 9 \<or> k = 10 \<or> k = 11" by arith
  then show ?thesis unfolding midiToNote_def by auto
qed

lemma scale_index_total:
  "\<exists>off. js_index (if isMinor then MINOR_SCALE else MAJOR_SCALE) (degreeIndex degree) = Some off
      \<and> 0 \<le> off \<and> off \<le> 11"
  using degreeIndex_cases [of degree]
  by (cases isMinor) (auto simp: js_index_def MINOR_SCALE_def MAJOR_SCALE_def)

lemma getScaleDegreeNote_total:
  assumes "NOTE_TO_MIDI root = Some rootMidi"
  shows "\<exists>name. getScaleDegreeNote root degree isMinor = Inr (Some name)"
proof -
  define scale where "scale = (if isMinor then MINOR_SCALE else MAJOR_SCALE)"
  obtain off where off: "js_index scale (degreeIndex degree) = Some off" "0 \<le> off" "off \<le> 11"
    unfolding scale_def using scale_index_total by blast
  have "60 \<le> rootMidi" using NOTE_TO_MIDI_range [OF assms] by simp
  then have nn: "0 \<le> rootMidi + off" using off by simp
  then have "js_rem (rootMidi + off) 12 = (rootMidi + off) mod 12" by (simp add: js_rem_nonneg)
  moreover have "\<exists>n. midiToNote ((rootMidi + off) mod 12) = Some n"
    by (rule midiToNote_total) simp_all
  ultimately obtain n where n: "midiToNote (js_rem (rootMidi + off) 12) = Some n" by auto
  show ?thesis
    unfolding getScaleDegreeNote_def scale_def [symmetric] using assms off(1) n
    by (simp add: Let_def split: option.splits)
qed

lemma getScaleDegreeNote_period:
  "getScaleDegreeNote root (degree + 7) isMinor = getScaleDegreeNote root degree isMinor"
  unfolding getScaleDegreeNote_def by (simp only: degreeIndex_period)

text \<open>Where the root has a row in the preference table, the row decides: the name
  computed from the scale of the mode is not used, and the mode makes no difference.\<close>

lemma keyPrefs_rows: "keyPrefs root = Some row \<Longrightarrow> length row = 7"
  unfolding keyPrefs_def by (drule map_of_SomeD) auto

lemma getScaleDegreeNote_preferred:
  assumes "NOTE_TO_MIDI root = Some rootMidi" and "keyPrefs root = Some row"
  shows "getScaleDegreeNote root degree isMinor = Inr (Some (row ! nat (degreeIndex degree)))"
proof -
  have "js_index row (degreeIndex degree) = Some (row ! nat (degreeIndex degree))"
    using keyPrefs_rows [OF assms(2)] degreeIndex_range [of degree] by (simp add: js_index_def)
  then show ?thesis using assms by (simp add: getScaleDegreeNote_def Let_def)
qed

lemma getScaleDegreeNote_ignores_mode:
  assumes "NOTE_TO_MIDI root = Some rootMidi" and "keyPrefs root = Some row"
  shows "getScaleDegreeNote root degree True = getScaleDegreeNote root degree False"
  by (simp only: getScaleDegreeNote_preferred [OF assms])

subsection \<open>Labels determine pitches\<close>

text \<open>The label pushed for a pitch is the note name followed by the octave number. On
  the pitches from 0 upwards the label determines the pitch, so a statement about the
  labels of a chord is a statement about its pitches.\<close>

lemma of_char_digit_char: "d < 10 \<Longrightarrow> (of_char (digit_char d) :: nat) = 48 + d"
  by (simp add: digit_char_def)

lemma digit_char_inj: "a < 10 \<Longrightarrow> b < 10 \<Longrightarrow> digit_char a = digit_char b \<Longrightarrow> a = b"
proof -
  assume a: "a < 10" and b: "b < 10" and eq: "digit_char a = digit_char b"
  from eq have "(of_char (digit_char a) :: nat) = of_char (digit_char b)" by simp
  then show "a = b" using a b by (simp add: of_char_digit_char)
qed

lemma show_nat_nonempty: "show_nat n \<noteq> []"
  by (subst show_nat.simps) simp

lemma show_nat_chars: "c \<in> set (show_nat n) \<Longrightarrow> \<exists>d<10. c = digit_char d"
proof (induction n rule: show_nat.induct)
  case (1 n)
  show ?case
  proof (cases "n < 10")
    case True
    then show ?thesis using "1.prems" by (subst (asm) show_nat.simps) auto
  next
    case False
    have "c \<in> set (show_nat (n div 10)) \<or> c = digit_char (n mod 10)"
      using "1.prems" False by (subst (asm) show_nat.simps) auto
    then show ?thesis
    proof
      assume "c \<in> set (show_nat (n div 10))"
      then show ?thesis using "1.IH" False by simp
    next
      assume "c = digit_char (n mod 10)"
      moreover have "n mod 10 < 10" by simp
      ultimately show ?thesis by blast
    qed
  qed
qed

lemma show_nat_inj: "show_nat n = show_nat m \<Longrightarrow> n = m"
proof (induction n arbitrary: m rule: show_nat.induct)
  case (1 n)
  show ?case
  proof (cases "n < 10")
    case n: True
    show ?thesis
    proof (cases "m < 10")
      case True
      have "[digit_char n] = [digit_char m]"
        using "1.prems" n True by (simp add: show_nat.simps [of n] show_nat.simps [of m])
      then show ?thesis using n True digit_char_inj by simp
    next
      case False
      have "[digit_char n] = show_nat (m div 10) @ [digit_char (m mod 10)]"
        using "1.prems" n False by (simp add: show_nat.simps [of n] show_nat.simps [of m])
      then have "show_nat (m div 10) = []" by (simp add: Cons_eq_append_conv)
      then show ?thesis using show_nat_nonempty by simp
    qed
  next
    case n: False
    show ?thesis
    proof (cases "m < 10")
      case True
      have "show_nat (n div 10) @ [digit_char (n mod 10)] = [digit_char m]"
        using "1.prems" n True by (simp add: show_nat.simps [of n] show_nat.simps [of m])
      then have "show_nat (n div 10) = []" by (simp add: append_eq_Cons_conv)
      then show ?thesis using show_nat_nonempty by simp
    next
      case False
      have eq: "show_nat (n div 10) @ [digit_char (n mod 10)]
                = show_nat (m div 10) @ [digit_char (m mod 10)]"
        using "1.prems" n False by (simp add: show_nat.simps [of n] show_nat.simps [of m])
      then have "show_nat (n div 10) = show_nat (m div 10)"
        and d: "digit_char (n mod 10) = digit_char (m mod 10)" by simp_all
      then have "n div 10 = m div 10" using "1.IH" n by simp
      moreover have "n mod 10 = m mod 10" using d digit_char_inj [of "n mod 10" "m mod 10"] by simp
      ultimately have "10 * (n div 10) + n mod 10 = 10 * (m div 10) + m mod 10" by simp
      then show ?thesis by (simp only: mult_div_mod_eq)
    qed
  qed
qed

lemma show_int_chars:
  "c \<in> set (show_int i) \<Longrightarrow> c = CHR ''-'' \<or> (\<exists>d<10. c = digit_char d)"
  using show_nat_chars by (auto simp: show_int_def split: if_splits)

lemma digit_char_not_minus: "d < 10 \<Longrightarrow> digit_char d \<noteq> CHR ''-''"
proof
  assume d: "d < 10" and "digit_char d = CHR ''-''"
  then have "(of_char (digit_char d) :: nat) = of_char CHR ''-''" by simp
  then show False using d by (simp only: of_char_digit_char) simp
qed

lemma digit_char_not_sharp: "d < 10 \<Longrightarrow> digit_char d \<noteq> CHR ''#''"
proof
  assume d: "d < 10" and "digit_char d = CHR ''#''"
  then have "(of_char (digit_char d) :: nat) = of_char CHR ''#''" by simp
  then show False using d by (simp only: of_char_digit_char) simp
qed

lemma show_int_no_sharp: "CHR ''#'' \<notin> set (show_int i)"
proof
  assume "CHR ''#'' \<in> set (show_int i)"
  then have "CHR ''#'' = CHR ''-'' \<or> (\<exists>d<10. CHR ''#'' = digit_char d)"
    by (rule show_int_chars)
  then obtain d where "d < 10" "digit_char d = CHR ''#''" by auto
  then show False using digit_char_not_sharp by blast
qed

lemma show_int_inj: "show_int a = show_int b \<Longrightarrow> a = b"
proof -
  assume eq: "show_int a = show_int b"
  have nominus: "\<And>n s. show_nat n = CHR ''-'' # s \<Longrightarrow> False"
  proof -
    fix n s assume "show_nat n = CHR ''-'' # s"
    then have "CHR ''-'' \<in> set (show_nat n)" by simp
    then obtain d where "d < 10" "CHR ''-'' = digit_char d" using show_nat_chars by blast
    then show False using digit_char_not_minus [of d] by simp
  qed
  show "a = b"
  proof (cases "a < 0")
    case a: True
    show ?thesis
    proof (cases "b < 0")
      case True
      then have "show_nat (nat (- a)) = show_nat (nat (- b))" using eq a by (simp add: show_int_def)
      then have "nat (- a) = nat (- b)" by (rule show_nat_inj)
      then show ?thesis using a True by simp
    next
      case False
      then have "show_nat (nat b) = CHR ''-'' # show_nat (nat (- a))" using eq a by (simp add: show_int_def)
      then show ?thesis using nominus by blast
    qed
  next
    case a: False
    show ?thesis
    proof (cases "b < 0")
      case True
      then have "show_nat (nat a) = CHR ''-'' # show_nat (nat (- b))" using eq a by (simp add: show_int_def)
      then show ?thesis using nominus by blast
    next
      case False
      then have "show_nat (nat a) = show_nat (nat b)" using eq a by (simp add: show_int_def)
      then have "nat a = nat b" by (rule show_nat_inj)
      then show ?thesis using a False by simp
    qed
  qed
qed

lemma midiToNote_entries:
  "midiToNote k = Some n \<Longrightarrow>
     (k, n) \<in> set [(0, ''C''), (1, ''C#''), (2, ''D''), (3, ''D#''), (4, ''E''), (5, ''F''),
      (6, ''F#''), (7, ''G''), (8, ''G#''), (9, ''A''), (10, ''A#''), (11, ''B'')]"
  unfolding midiToNote_def by (rule map_of_SomeD)

lemma midiToNote_shape:
  assumes "midiToNote k = Some n"
  shows "hd n \<noteq> CHR ''#'' \<and> (n = [hd n] \<or> n = [hd n, CHR ''#''])"
proof -
  have "n \<in> set [''C'', ''C#'', ''D'', ''D#'', ''E'', ''F'', ''F#'', ''G'', ''G#'', ''A'', ''A#'', ''B'']"
    using midiToNote_entries [OF assms] by auto
  then have "n = ''C'' \<or> n = ''C#'' \<or> n = ''D'' \<or> n = ''D#'' \<or> n = ''E'' \<or> n = ''F''
      \<or> n = ''F#'' \<or> n = ''G'' \<or> n = ''G#'' \<or> n = ''A'' \<or> n = ''A#'' \<or> n = ''B''"
    by simp
  then show ?thesis by (elim disjE) simp_all
qed

lemma map_of_inj_values:
  "distinct (map snd xs) \<Longrightarrow> map_of xs j = Some n \<Longrightarrow> map_of xs k = Some n \<Longrightarrow> j = k"
proof (induction xs)
  case Nil
  then show ?case by simp
next
  case (Cons x xs)
  obtain a b where x: "x = (a, b)" by (cases x)
  have notin: "b \<notin> snd ` set xs" using Cons.prems(1) x by simp
  have nb: "map_of xs i = Some b \<Longrightarrow> False" for i
  proof -
    assume "map_of xs i = Some b"
    then have "(i, b) \<in> set xs" by (rule map_of_SomeD)
    then have "b \<in> snd ` set xs" by force
    then show False using notin by simp
  qed
  show ?case
  proof (cases "j = a")
    case ja: True
    then have nb': "n = b" using Cons.prems(2) x by simp
    show ?thesis
    proof (cases "k = a")
      case True
      then show ?thesis using ja by simp
    next
      case False
      then have "map_of xs k = Some b" using Cons.prems(3) x nb' by simp
      then show ?thesis using nb by blast
    qed
  next
    case ja: False
    then have mj: "map_of xs j = Some n" using Cons.prems(2) x by simp
    show ?thesis
    proof (cases "k = a")
      case True
      then have "n = b" using Cons.prems(3) x by simp
      then show ?thesis using mj nb by blast
    next
      case False
      then have "map_of xs k = Some n" using Cons.prems(3) x by simp
      moreover have "distinct (map snd xs)" using Cons.prems(1) by simp
      ultimately show ?thesis using Cons.IH mj by blast
    qed
  qed
qed

lemma midiToNote_inj:
  assumes "midiToNote j = Some n" "midiToNote k = Some n"
  shows "j = k"
  using map_of_inj_values [OF _ assms(1) [unfolded midiToNote_def] assms(2) [unfolded midiToNote_def]]
  by simp

lemma label_split:
  assumes "midiToNote j = Some n1" "midiToNote k = Some n2"
    and "n1 @ show_int a = n2 @ show_int b"
  shows "n1 = n2 \<and> show_int a = show_int b"
proof -
  obtain l1 where l1: "n1 = [l1] \<or> n1 = [l1, CHR ''#'']"
    using midiToNote_shape [OF assms(1)] by blast
  obtain l2 where l2: "n2 = [l2] \<or> n2 = [l2, CHR ''#'']"
    using midiToNote_shape [OF assms(2)] by blast
  note eq = assms(3)
  have sa: "show_int a \<noteq> CHR ''#'' # s" "CHR ''#'' # s \<noteq> show_int a" for s
    using show_int_no_sharp [of a] by (metis list.set_intros(1))+
  have sb: "show_int b \<noteq> CHR ''#'' # s" "CHR ''#'' # s \<noteq> show_int b" for s
    using show_int_no_sharp [of b] by (metis list.set_intros(1))+
  from l1 show ?thesis
  proof
    assume a1: "n1 = [l1]"
    from l2 show ?thesis
    proof
      assume "n2 = [l2]"
      then show ?thesis using a1 eq by simp
    next
      assume "n2 = [l2, CHR ''#'']"
      then have "show_int a = CHR ''#'' # show_int b" using a1 eq by simp
      then show ?thesis using sa by blast
    qed
  next
    assume a1: "n1 = [l1, CHR ''#'']"
    from l2 show ?thesis
    proof
      assume "n2 = [l2]"
      then have "CHR ''#'' # show_int a = show_int b" using a1 eq by simp
      then show ?thesis using sb by blast
    next
      assume "n2 = [l2, CHR ''#'']"
      then show ?thesis using a1 eq by simp
    qed
  qed
qed

lemma noteLabel_inj:
  assumes "0 \<le> p" "0 \<le> q" "noteLabel p = noteLabel q"
  shows "p = q"
proof -
  have rp: "js_rem p 12 = p mod 12" and rq: "js_rem q 12 = q mod 12"
    using assms by (simp_all add: js_rem_nonneg)
  obtain n1 where n1: "midiToNote (p mod 12) = Some n1"
    using midiToNote_total [of "p mod 12"] by auto
  obtain n2 where n2: "midiToNote (q mod 12) = Some n2"
    using midiToNote_total [of "q mod 12"] by auto
  have "n1 @ show_int (p div 12 - 1) = n2 @ show_int (q div 12 - 1)"
    using assms(3) n1 n2 rp rq by (simp add: noteLabel_def Let_def)
  then have "n1 = n2" and "show_int (p div 12 - 1) = show_int (q div 12 - 1)"
    using label_split [OF n1 n2] by simp_all
  then have "p mod 12 = q mod 12" and "p div 12 - 1 = q div 12 - 1"
    using n1 n2 midiToNote_inj show_int_inj by blast+
  then have "12 * (p div 12) + p mod 12 = 12 * (q div 12) + q mod 12" by simp
  then show ?thesis by (simp only: mult_div_mod_eq)
qed

subsection \<open>What a returned chord looks like\<close>

lemma noteToMidi_Inr:
  "noteToMidi chordRoot octave = Inr r \<Longrightarrow>
     \<exists>name baseNote. chordRoot = Some name \<and> NOTE_TO_MIDI name = Some baseNote
        \<and> r = baseNote + (octave - 4) * 12"
  by (auto simp: noteToMidi_def split: option.splits)

lemma getChordNotes_Inr:
  assumes "getChordNotes root degree isMinor octave = Inr notes"
  shows "\<exists>name r. getScaleDegreeNote root degree isMinor = Inr (Some name)
     \<and> noteToMidi (Some name) octave = Inr r
     \<and> notes = map (\<lambda>interval. noteLabel (r + interval))
         (if (if isMinor then degree \<in> set [1, 4, 5] else degree \<in> set [2, 3, 6])
          then MINOR_TRIAD else MAJOR_TRIAD)"
proof -
  obtain chordRoot where c: "getScaleDegreeNote root degree isMinor = Inr chordRoot"
    using assms by (cases "getScaleDegreeNote root degree isMinor") (simp_all add: getChordNotes_def)
  obtain r where r: "noteToMidi chordRoot octave = Inr r"
    using assms c by (cases "noteToMidi chordRoot octave") (simp_all add: getChordNotes_def Let_def)
  obtain name where n: "chordRoot = Some name" using noteToMidi_Inr [OF r] by blast
  have "notes = map (\<lambda>interval. noteLabel (r + interval))
         (if (if isMinor then degree \<in> set [1, 4, 5] else degree \<in> set [2, 3, 6])
          then MINOR_TRIAD else MAJOR_TRIAD)"
    using assms c r by (simp add: getChordNotes_def Let_def)
  then show ?thesis using c r n by blast
qed

lemma getChordNotes_octave4:
  assumes "getChordNotes root degree isMinor 4 = Inr notes"
  shows "\<exists>r i. 60 \<le> r \<and> r \<le> 71 \<and> (i = 3 \<or> i = 4)
           \<and> notes = map noteLabel [r, r + i, r + 7]"
proof -
  obtain name r where r: "noteToMidi (Some name) 4 = Inr r"
    and n: "notes = map (\<lambda>interval. noteLabel (r + interval))
         (if (if isMinor then degree \<in> set [1, 4, 5] else degree \<in> set [2, 3, 6])
          then MINOR_TRIAD else MAJOR_TRIAD)"
    using getChordNotes_Inr [OF assms] by blast
  obtain baseNote where "NOTE_TO_MIDI name = Some baseNote" "r = baseNote + (4 - 4) * 12"
    using noteToMidi_Inr [OF r] by auto
  then have "60 \<le> r \<and> r \<le> 71" using NOTE_TO_MIDI_range by simp
  moreover have "notes = map noteLabel [r, r + 3, r + 7] \<or> notes = map noteLabel [r, r + 4, r + 7]"
    unfolding n by (simp add: MINOR_TRIAD_def MAJOR_TRIAD_def)
  ultimately show ?thesis by blast
qed

lemma addChords_octave4:
  "addChords root isMinor degrees = Inr chords \<Longrightarrow>
     \<forall>chord \<in> set chords. \<exists>r i. 60 \<le> r \<and> r \<le> 71 \<and> (i = 3 \<or> i = 4)
           \<and> chord = map noteLabel [r, r + i, r + 7]"
proof (induction degrees arbitrary: chords)
  case Nil
  then show ?case by simp
next
  case (Cons degree rest)
  obtain chordNotes where c: "getChordNotes root degree isMinor 4 = Inr chordNotes"
    using Cons.prems by (cases "getChordNotes root degree isMinor 4") simp_all
  obtain events where e: "addChords root isMinor rest = Inr events"
    using Cons.prems c by (cases "addChords root isMinor rest") simp_all
  have "chords = chordNotes # events" using Cons.prems c e by simp
  then show ?case using getChordNotes_octave4 [OF c] Cons.IH [OF e] by simp
qed

lemma createChordProgression_Inr:
  assumes "createChordProgression key numChords = Inr chords"
  shows "\<exists>root isMinor progression.
      getProgressionDegrees numChords = Inr (Some progression)
      \<and> addChords root isMinor progression = Inr chords"
  using assms
  by (auto simp: createChordProgression_def Let_def split: option.splits if_splits sum.splits)

subsection \<open>The mode decided by parseKey\<close>

text \<open>The compact form is never reached: a string that the pattern of \<open>noteMatch\<close>
  matches starts with a note letter, which the replacement keeps, so the root is not empty.
  What \<open>parseKey\<close> computes is therefore the stripped root, and Minor mode exactly when
  the trimmed key contains an \<open>m\<close> or an \<open>M\<close>.\<close>

lemma includes_str_hd: "includes_str s (c # t) \<Longrightarrow> c \<in> set s"
  by (induction s) auto

lemma includes_str_single: "includes_str s [c] = (c \<in> set s)"
  by (induction s) auto

lemma isMinor_iff:
  "list_ex (\<lambda>indicator. includes_str s (toLowerCase indicator)) [''minor'', ''min'', ''m'']
     = (CHR ''m'' \<in> set s)"
proof -
  have l: "toLowerCase ''minor'' = ''minor''" "toLowerCase ''min'' = ''min''" "toLowerCase ''m'' = ''m''"
    by code_simp+
  show ?thesis
    using includes_str_hd [of s "CHR ''m''" "''inor''"] includes_str_hd [of s "CHR ''m''" "''in''"]
    by (auto simp: l includes_str_single)
qed

lemma toUpperChar_m: "toUpperChar CHR ''m'' = CHR ''M''" "toUpperChar CHR ''M'' = CHR ''M''"
  by code_simp+

lemma matchIndicator_None:
  assumes "toUpperChar c \<noteq> CHR ''M''"
  shows "matchIndicator indicatorAlternatives (c # cs) = None"
  using assms by (simp add: indicatorAlternatives_def toUpperChar_m)

lemma isWhiteSpace_upper:
  assumes "isWhiteSpace c"
  shows "toUpperChar c = c \<and> c \<notin> set ''ABCDEFG''"
proof -
  have "c = CHR 0x09 \<or> c = CHR 0x0A \<or> c = CHR 0x0B \<or> c = CHR 0x0C \<or> c = CHR 0x0D
      \<or> c = CHR 0x20 \<or> c = CHR 0xA0"
    using assms by (simp add: isWhiteSpace_def)
  moreover have "toUpperChar (CHR 0x09) = CHR 0x09" "toUpperChar (CHR 0x0A) = CHR 0x0A"
    "toUpperChar (CHR 0x0B) = CHR 0x0B" "toUpperChar (CHR 0x0C) = CHR 0x0C"
    "toUpperChar (CHR 0x0D) = CHR 0x0D" "toUpperChar (CHR 0x20) = CHR 0x20"
    "toUpperChar (CHR 0xA0) = CHR 0xA0"
    by code_simp+
  ultimately show ?thesis by (elim disjE) simp_all
qed

lemma trim_nonempty:
  assumes "\<not> isWhiteSpace c"
  shows "trim (c # cs) \<noteq> []"
proof -
  have "dropWhile isWhiteSpace (c # cs) = c # cs" using assms by simp
  moreover have "dropWhile isWhiteSpace (rev (c # cs)) \<noteq> []"
    using assms by (simp add: dropWhile_eq_Nil_conv)
  ultimately show ?thesis by (simp add: trim_def)
qed

lemma noteMatch_hd:
  "noteMatch s = Some g \<Longrightarrow> \<exists>l rest. s = l # rest \<and> isNoteLetter l"
  by (induction s rule: noteMatch.induct) (auto split: if_splits)

lemma noteMatch_root_nonempty:
  assumes "noteMatch s = Some g"
  shows "trim (replaceIndicators s) \<noteq> []"
proof -
  obtain l rest where s: "s = l # rest" and l: "isNoteLetter l"
    using noteMatch_hd [OF assms] by blast
  have up: "toUpperChar l \<in> set ''ABCDEFG''" using l by (simp add: isNoteLetter_def)
  then have "toUpperChar l \<noteq> CHR ''M''" by auto
  then have "replaceIndicators s = l # replaceIndicators rest"
    unfolding s by (simp add: matchIndicator_None)
  moreover have "\<not> isWhiteSpace l" using isWhiteSpace_upper [of l] up by auto
  ultimately show ?thesis by (simp add: trim_nonempty)
qed

lemma parseKey_cases:
  "parseKey key =
     (if trim (replaceIndicators (trim key)) = [] then None
      else Some \<lparr>keyRoot = capitalize (trim (replaceIndicators (trim key))),
                 keyIsMinor = (CHR ''m'' \<in> set (toLowerCase (trim key)))\<rparr>)"
proof (cases "trim (replaceIndicators (trim key)) = []")
  case True
  then have "noteMatch (trim key) = None"
    using noteMatch_root_nonempty [of "trim key"] by (cases "noteMatch (trim key)") auto
  then show ?thesis using True by (simp add: parseKey_def Let_def)
next
  case False
  then show ?thesis
    using isMinor_iff [of "toLowerCase (trim key)"] by (simp add: parseKey_def Let_def)
qed

lemma parseKey_major_table:
  "parseKey ''C major'' = Some \<lparr>keyRoot = ''C'', keyIsMinor = True\<rparr>"
  "parseKey ''C# major'' = Some \<lparr>keyRoot = ''C#'', keyIsMinor = True\<rparr>"
  "parseKey ''Db major'' = Some \<lparr>keyRoot = ''Db'', keyIsMinor = True\<rparr>"
  "parseKey ''D major'' = Some \<lparr>keyRoot = ''D'', keyIsMinor = True\<rparr>"
  "parseKey ''D# major'' = Some \<lparr>keyRoot = ''D#'', keyIsMinor = True\<rparr>"
  "parseKey ''Eb major'' = Some \<lparr>keyRoot = ''Eb'', keyIsMinor = True\<rparr>"
  "parseKey ''E major'' = Some \<lparr>keyRoot = ''E'', keyIsMinor = True\<rparr>"
  "parseKey ''F major'' = Some \<lparr>keyRoot = ''F'', keyIsMinor = True\<rparr>"
  "parseKey ''F# major'' = Some \<lparr>keyRoot = ''F#'', keyIsMinor = True\<rparr>"
  "parseKey ''Gb major'' = Some \<lparr>keyRoot = ''Gb'', keyIsMinor = True\<rparr>"
  "parseKey ''G major'' = Some \<lparr>keyRoot = ''G'', keyIsMinor = True\<rparr>"
  "parseKey ''G# major'' = Some \<lparr>keyRoot = ''G#'', keyIsMinor = True\<rparr>"
  "parseKey ''Ab major'' = Some \<lparr>keyRoot = ''Ab'', keyIsMinor = True\<rparr>"
  "parseKey ''A major'' = Some \<lparr>keyRoot = ''A'', keyIsMinor = True\<rparr>"
  "parseKey ''A# major'' = Some \<lparr>keyRoot = ''A#'', keyIsMinor = True\<rparr>"
  "parseKey ''Bb major'' = Some \<lparr>keyRoot = ''Bb'', keyIsMinor = True\<rparr>"
  "parseKey ''B major'' = Some \<lparr>keyRoot = ''B'', keyIsMinor = True\<rparr>"
  by code_simp+

text \<open>The inherited members are reachable: the key \<open>__proto__\<close> passes the validation
  of the root, and the first chord fails on the name \<open>undefined\<close>.\<close>

lemma createChordProgression_proto:
  "createChordProgression ''__proto__'' 4 = Inl (InvalidNoteName ''undefined'')"
  by code_simp

section \<open>The claims\<close>

text \<open>
  C1. The key string \<open>C major\<close> with four chords should give the degrees 1, 4, 5, 1 as
  the major triads C (C4 E4 G4), F (F4 A4 C5), G (G4 B4 D5), C (C4 E4 G4). The engine
  returns something else: the bare indicator \<open>m\<close> of \<open>parseKey\<close> occurs in the word
  \<open>major\<close>, the key is taken as C minor, and the four chords are the minor triads
  C4 D#4 G4, F4 G#4 C5, G4 A#4 D5, C4 D#4 G4.
\<close>

theorem createChordProgression_C_major_4:
  "createChordProgression ''C major'' 4 =
     Inr [[JStr ''C4'', JStr ''D#4'', JStr ''G4''],
          [JStr ''F4'', JStr ''G#4'', JStr ''C5''],
          [JStr ''G4'', JStr ''A#4'', JStr ''D5''],
          [JStr ''C4'', JStr ''D#4'', JStr ''G4'']]"
  by code_simp

text \<open>
  C2. For a root of the pitch table, \<open>parseKey\<close> should return Major mode for the root
  followed by \<open>major\<close>, and Minor mode only for \<open>minor\<close>, \<open>min\<close> or a trailing bare
  \<open>m\<close>. It returns Minor mode instead, for every root of the pitch table: the test
  for the indicator \<open>m\<close> is a substring test, and \<open>major\<close> contains an \<open>m\<close>. For every
  key that parses, the mode is Minor exactly when the trimmed key contains an \<open>m\<close> or
  an \<open>M\<close>, wherever it stands.
\<close>

theorem parseKey_major_isMinor:
  "(NOTE_TO_MIDI root \<noteq> None \<longrightarrow>
      parseKey (root @ '' major'') = Some \<lparr>keyRoot = root, keyIsMinor = True\<rparr>)
   \<and> (parseKey key = Some keyInfo \<longrightarrow>
      keyIsMinor keyInfo = (CHR ''m'' \<in> set (toLowerCase (trim key))))"
proof (intro conjI impI)
  assume "NOTE_TO_MIDI root \<noteq> None"
  then obtain v where "NOTE_TO_MIDI root = Some v" by auto
  then have "(root, v) \<in> set
     [(''C'', 60), (''C#'', 61), (''Db'', 61), (''D'', 62), (''D#'', 63), (''Eb'', 63),
      (''E'', 64), (''F'', 65), (''F#'', 66), (''Gb'', 66), (''G'', 67), (''G#'', 68),
      (''Ab'', 68), (''A'', 69), (''A#'', 70), (''Bb'', 70), (''B'', 71)]"
    by (rule NOTE_TO_MIDI_entries)
  then have "root \<in> set
     [''C'', ''C#'', ''Db'', ''D'', ''D#'', ''Eb'', ''E'', ''F'', ''F#'', ''Gb'', ''G'', ''G#'',
      ''Ab'', ''A'', ''A#'', ''Bb'', ''B'']"
    by auto
  then have "root = ''C'' \<or> root = ''C#'' \<or> root = ''Db'' \<or> root = ''D'' \<or> root = ''D#''
      \<or> root = ''Eb'' \<or> root = ''E'' \<or> root = ''F'' \<or> root = ''F#'' \<or> root = ''Gb''
      \<or> root = ''G'' \<or> root = ''G#'' \<or> root = ''Ab'' \<or> root = ''A'' \<or> root = ''A#''
      \<or> root = ''Bb'' \<or> root = ''B''"
    by simp
  then show "parseKey (root @ '' major'') = Some \<lparr>keyRoot = root, keyIsMinor = True\<rparr>"
    by (elim disjE) (simp_all add: parseKey_major_table)
next
  assume "parseKey key = Some keyInfo"
  then show "keyIsMinor keyInfo = (CHR ''m'' \<in> set (toLowerCase (trim key)))"
    by (subst (asm) parseKey_cases) (auto split: if_splits)
qed

theorem parseKey_major_isMinor_witness:
  "NOTE_TO_MIDI ''C'' \<noteq> None
   \<and> parseKey ''C major'' = Some \<lparr>keyRoot = ''C'', keyIsMinor = True\<rparr>
   \<and> CHR ''m'' \<in> set (toLowerCase (trim ''C major''))
   \<and> parseKey ''C'' = Some \<lparr>keyRoot = ''C'', keyIsMinor = False\<rparr>
   \<and> CHR ''m'' \<notin> set (toLowerCase (trim ''C''))"
proof -
  have h: "NOTE_TO_MIDI ''C'' \<noteq> None" by code_simp
  have c: "parseKey ''C'' = Some \<lparr>keyRoot = ''C'', keyIsMinor = False\<rparr>" by code_simp
  show ?thesis
    using parseKey_major_isMinor [of "''C''" "''C major''" "\<lparr>keyRoot = ''C'', keyIsMinor = True\<rparr>"]
      parseKey_major_isMinor [of "''C''" "''C''" "\<lparr>keyRoot = ''C'', keyIsMinor = False\<rparr>"]
      h c
    by simp
qed

text \<open>
  C3. Round trip between the scale engine and the pitch table: the name returned by
  \<open>getScaleDegreeNote\<close> should be a name of the pitch table whose pitch class is that of
  the root plus the scale offset of the degree. The code breaks this in two ways. In a
  minor key the row of the major key is returned: the sixth degree of A minor is
  \<open>F#\<close>, pitch class 6, where 69 + 8 has pitch class 5, and the second chord of the
  five chords in A minor is built on F# instead of F (for a root with a row the mode
  makes no difference at all, lemma \<open>getScaleDegreeNote_ignores_mode\<close>). And the rows of
  \<open>Gb\<close> and \<open>F#\<close> hold the names \<open>Cb\<close> and \<open>E#\<close>, which the pitch table does not
  have.
\<close>

theorem getScaleDegreeNote_round_trip_fails:
  "getScaleDegreeNote ''A'' 6 True = Inr (Some ''F#'')
   \<and> NOTE_TO_MIDI ''A'' = Some 69
   \<and> js_index MINOR_SCALE (degreeIndex 6) = Some 8
   \<and> NOTE_TO_MIDI ''F#'' = Some 66
   \<and> (66 :: int) mod 12 \<noteq> (69 + 8) mod 12
   \<and> getScaleDegreeNote ''Gb'' 4 False = Inr (Some ''Cb'')
   \<and> NOTE_TO_MIDI ''Cb'' = None
   \<and> getScaleDegreeNote ''F#'' 7 False = Inr (Some ''E#'')
   \<and> NOTE_TO_MIDI ''E#'' = None
   \<and> createChordProgression ''A minor'' 5 =
       Inr [[JStr ''A4'', JStr ''C5'', JStr ''E5''],
            [JStr ''F#4'', JStr ''A#4'', JStr ''C#5''],
            [JStr ''D4'', JStr ''F4'', JStr ''A4''],
            [JStr ''E4'', JStr ''G4'', JStr ''B4''],
            [JStr ''A4'', JStr ''C5'', JStr ''E5'']]"
  by code_simp

text \<open>
  C4. There is an input with a key the parser accepts, a root of the pitch table and a
  chord count in range for which \<open>createChordProgression\<close> throws
  \<open>Invalid note name\<close>: for \<open>Gb major\<close> and four chords the root \<open>Gb\<close> is in the pitch
  table, the fourth degree of its row is \<open>Cb\<close> (in either mode), \<open>Cb\<close> is not in the
  pitch table, and the call fails with \<open>Invalid note name: Cb\<close>, which is none of the
  errors of the key format, the root note or the chord count.
\<close>

theorem createChordProgression_Gb_major_4:
  "parseKey ''Gb major'' = Some \<lparr>keyRoot = ''Gb'', keyIsMinor = True\<rparr>
   \<and> NOTE_TO_MIDI ''Gb'' = Some 66
   \<and> getProgressionDegrees 4 = Inr (Some [1, 4, 5, 1])
   \<and> getScaleDegreeNote ''Gb'' 4 True = Inr (Some ''Cb'')
   \<and> getScaleDegreeNote ''Gb'' 4 False = Inr (Some ''Cb'')
   \<and> NOTE_TO_MIDI ''Cb'' = None
   \<and> createChordProgression ''Gb major'' 4 = Inl (InvalidNoteName ''Cb'')"
  by code_simp

text \<open>
  C5, as stated: the chord count is validated before the key is parsed, so an invalid key
  with a chord count outside 2..6 fails with the chord count error. It does not: the empty
  key with seven chords fails with the key format error.
\<close>

theorem createChordProgression_empty_key_7:
  "parseKey [] = None
   \<and> createChordProgression [] 7 = Inl (InvalidKeyFormat [])
   \<and> createChordProgression [] 7 \<noteq> Inl (InvalidChordCount 7)"
  by code_simp

text \<open>
  C5, as the code has it: the key is parsed first, the root is validated next and the
  chord count last. A key that does not parse fails with the key format error whatever
  the chord count is; a key whose root is no property of the pitch table fails with the
  root note error whatever the chord count is; a chord count outside 2..6 fails with the
  chord count error when the key parses and its root is in the pitch table.
\<close>

theorem createChordProgression_validation_order:
  "(parseKey key = None \<longrightarrow> createChordProgression key numChords = Inl (InvalidKeyFormat key))
   \<and> (parseKey key = Some keyInfo \<and> NOTE_TO_MIDI (keyRoot keyInfo) = None
        \<and> keyRoot keyInfo \<notin> set inheritedMembers \<longrightarrow>
        createChordProgression key numChords = Inl (InvalidRootNote (keyRoot keyInfo)))
   \<and> (parseKey key = Some keyInfo \<and> NOTE_TO_MIDI (keyRoot keyInfo) \<noteq> None
        \<and> (numChords < 2 \<or> numChords > 6) \<longrightarrow>
        createChordProgression key numChords = Inl (InvalidChordCount numChords))"
  by (auto simp: createChordProgression_def Let_def)

theorem createChordProgression_validation_order_witness:
  "parseKey [] = None
   \<and> createChordProgression [] 7 = Inl (InvalidKeyFormat [])
   \<and> parseKey ''H major'' = Some \<lparr>keyRoot = ''H'', keyIsMinor = True\<rparr>
   \<and> NOTE_TO_MIDI ''H'' = None
   \<and> ''H'' \<notin> set inheritedMembers
   \<and> createChordProgression ''H major'' 7 = Inl (InvalidRootNote ''H'')
   \<and> parseKey ''A minor'' = Some \<lparr>keyRoot = ''A'', keyIsMinor = True\<rparr>
   \<and> NOTE_TO_MIDI ''A'' = Some 69
   \<and> createChordProgression ''A minor'' 7 = Inl (InvalidChordCount 7)"
proof -
  have p0: "parseKey [] = None" by code_simp
  have pH: "parseKey ''H major'' = Some \<lparr>keyRoot = ''H'', keyIsMinor = True\<rparr>" by code_simp
  have nH: "NOTE_TO_MIDI ''H'' = None" by code_simp
  have iH: "''H'' \<notin> set inheritedMembers" by code_simp
  have pA: "parseKey ''A minor'' = Some \<lparr>keyRoot = ''A'', keyIsMinor = True\<rparr>" by code_simp
  have nA: "NOTE_TO_MIDI ''A'' = Some 69" by code_simp
  show ?thesis
    using createChordProgression_validation_order [of "[]" 7 "\<lparr>keyRoot = ''H'', keyIsMinor = True\<rparr>"]
      createChordProgression_validation_order [of "''H major''" 7 "\<lparr>keyRoot = ''H'', keyIsMinor = True\<rparr>"]
      createChordProgression_validation_order [of "''A minor''" 7 "\<lparr>keyRoot = ''A'', keyIsMinor = True\<rparr>"]
      p0 pH nH iH pA nA
    by simp
qed

text \<open>
  C6. Whenever \<open>getChordNotes\<close> returns (in particular for a root of the pitch table and
  a degree from 1 to 7), the chord root has a name of the pitch table, and with \<open>r\<close> its
  absolute pitch the three notes are, in the order root, third, fifth, the labels of
  \<open>r\<close>, \<open>r + 3\<close>, \<open>r + 7\<close> when the key is major and the degree is 2, 3 or 6, or the key
  is minor and the degree is 1, 4 or 5, and the labels of \<open>r\<close>, \<open>r + 4\<close>, \<open>r + 7\<close>
  otherwise. The fifth is never diminished: where labels determine pitches (\<open>r\<close> from 0
  upwards) the notes are not those of \<open>r\<close>, \<open>r + 3\<close>, \<open>r + 6\<close>.
\<close>

theorem getChordNotes_triad:
  assumes "getChordNotes root degree isMinor octave = Inr notes"
  shows "\<exists>name r. getScaleDegreeNote root degree isMinor = Inr (Some name)
     \<and> noteToMidi (Some name) octave = Inr r
     \<and> notes = (if (\<not> isMinor \<and> degree \<in> {2, 3, 6}) \<or> (isMinor \<and> degree \<in> {1, 4, 5})
                 then [noteLabel r, noteLabel (r + 3), noteLabel (r + 7)]
                 else [noteLabel r, noteLabel (r + 4), noteLabel (r + 7)])
     \<and> (0 \<le> r \<longrightarrow> notes \<noteq> [noteLabel r, noteLabel (r + 3), noteLabel (r + 6)])"
proof -
  obtain name r where c: "getScaleDegreeNote root degree isMinor = Inr (Some name)"
    and r: "noteToMidi (Some name) octave = Inr r"
    and n: "notes = map (\<lambda>interval. noteLabel (r + interval))
         (if (if isMinor then degree \<in> set [1, 4, 5] else degree \<in> set [2, 3, 6])
          then MINOR_TRIAD else MAJOR_TRIAD)"
    using getChordNotes_Inr [OF assms] by blast
  have shape: "notes = (if (\<not> isMinor \<and> degree \<in> {2, 3, 6}) \<or> (isMinor \<and> degree \<in> {1, 4, 5})
                 then [noteLabel r, noteLabel (r + 3), noteLabel (r + 7)]
                 else [noteLabel r, noteLabel (r + 4), noteLabel (r + 7)])"
    unfolding n by (cases isMinor) (simp_all add: MINOR_TRIAD_def MAJOR_TRIAD_def)
  have fifth: "notes ! 2 = noteLabel (r + 7)"
    unfolding shape by simp
  have "notes \<noteq> [noteLabel r, noteLabel (r + 3), noteLabel (r + 6)]" if "0 \<le> r"
  proof
    assume "notes = [noteLabel r, noteLabel (r + 3), noteLabel (r + 6)]"
    then have "notes ! 2 = noteLabel (r + 6)" by simp
    then have "noteLabel (r + 7) = noteLabel (r + 6)" using fifth by simp
    then have "r + 7 = r + 6" using that by (intro noteLabel_inj) simp_all
    then show False by simp
  qed
  then show ?thesis using c r shape by blast
qed

theorem getChordNotes_triad_witness:
  "getChordNotes ''C'' 2 False 4 = Inr [JStr ''D4'', JStr ''F4'', JStr ''A4'']
   \<and> getChordNotes ''C'' 5 False 4 = Inr [JStr ''G4'', JStr ''B4'', JStr ''D5'']
   \<and> (\<exists>name r. getScaleDegreeNote ''C'' 2 False = Inr (Some name)
        \<and> noteToMidi (Some name) 4 = Inr r
        \<and> [JStr ''D4'', JStr ''F4'', JStr ''A4''] = [noteLabel r, noteLabel (r + 3), noteLabel (r + 7)])
   \<and> (\<exists>name r. getScaleDegreeNote ''C'' 5 False = Inr (Some name)
        \<and> noteToMidi (Some name) 4 = Inr r
        \<and> [JStr ''G4'', JStr ''B4'', JStr ''D5''] = [noteLabel r, noteLabel (r + 4), noteLabel (r + 7)])"
proof -
  have a: "getChordNotes ''C'' 2 False 4 = Inr [JStr ''D4'', JStr ''F4'', JStr ''A4'']"
    by code_simp
  have b: "getChordNotes ''C'' 5 False 4 = Inr [JStr ''G4'', JStr ''B4'', JStr ''D5'']"
    by code_simp
  show ?thesis
    using getChordNotes_triad [OF a] getChordNotes_triad [OF b] a b by simp blast
qed

text \<open>
  C7. For every integer \<open>n\<close>, \<open>getProgressionDegrees\<close> fails, with the chord count error,
  if and only if \<open>n < 2\<close> or \<open>n > 6\<close>; for 2, 3, 4, 5 and 6 it returns the templates
  1 5, 1 4 5, 1 4 5 1, 1 6 4 5 1 and 1 6 4 5 1 4.
\<close>

theorem getProgressionDegrees_contract:
  "(getProgressionDegrees n = Inl (InvalidChordCount n)) = (n < 2 \<or> 6 < n)
   \<and> (\<exists>e. getProgressionDegrees n = Inl e) = (n < 2 \<or> 6 < n)
   \<and> getProgressionDegrees 2 = Inr (Some [1, 5])
   \<and> getProgressionDegrees 3 = Inr (Some [1, 4, 5])
   \<and> getProgressionDegrees 4 = Inr (Some [1, 4, 5, 1])
   \<and> getProgressionDegrees 5 = Inr (Some [1, 6, 4, 5, 1])
   \<and> getProgressionDegrees 6 = Inr (Some [1, 6, 4, 5, 1, 4])"
  by (simp add: getProgressionDegrees_def patterns_def)

theorem getProgressionDegrees_contract_witness:
  "getProgressionDegrees 0 = Inl (InvalidChordCount 0)
   \<and> getProgressionDegrees 1 = Inl (InvalidChordCount 1)
   \<and> getProgressionDegrees 7 = Inl (InvalidChordCount 7)
   \<and> getProgressionDegrees (- 1) = Inl (InvalidChordCount (- 1))
   \<and> (\<nexists>e. getProgressionDegrees 4 = Inl e)"
  using getProgressionDegrees_contract [of 0] getProgressionDegrees_contract [of 1]
    getProgressionDegrees_contract [of 7] getProgressionDegrees_contract [of "- 1"]
    getProgressionDegrees_contract [of 4]
  by simp

text \<open>
  C8. The key string \<open>A minor\<close> with three chords gives the degrees 1, 4, 5 as the minor
  triads A (A4 C5 E5), D (D4 F4 A4) and E (E4 G4 B4).
\<close>

theorem createChordProgression_A_minor_3:
  "parseKey ''A minor'' = Some \<lparr>keyRoot = ''A'', keyIsMinor = True\<rparr>
   \<and> getProgressionDegrees 3 = Inr (Some [1, 4, 5])
   \<and> createChordProgression ''A minor'' 3 =
     Inr [[JStr ''A4'', JStr ''C5'', JStr ''E5''],
          [JStr ''D4'', JStr ''F4'', JStr ''A4''],
          [JStr ''E4'', JStr ''G4'', JStr ''B4'']]"
  by code_simp

text \<open>
  C9. The degree lookup of the scale engine is total and has period 7: for every root of
  the pitch table, both modes and every integer degree, negative or above 7, the scale
  index \<open>((degree - 1) % 7 + 7) % 7\<close> lies in 0..6 (it is \<open>(degree - 1) mod 7\<close>),
  \<open>getScaleDegreeNote\<close> returns a name, and it returns the same for \<open>degree + 7\<close>.
\<close>

theorem getScaleDegreeNote_total_periodic:
  assumes "NOTE_TO_MIDI root \<noteq> None"
  shows "0 \<le> degreeIndex degree \<and> degreeIndex degree \<le> 6
     \<and> degreeIndex degree = (degree - 1) mod 7
     \<and> (\<exists>name. getScaleDegreeNote root degree isMinor = Inr (Some name))
     \<and> getScaleDegreeNote root (degree + 7) isMinor = getScaleDegreeNote root degree isMinor"
proof -
  obtain rootMidi where "NOTE_TO_MIDI root = Some rootMidi" using assms by auto
  then have "\<exists>name. getScaleDegreeNote root degree isMinor = Inr (Some name)"
    by (rule getScaleDegreeNote_total)
  moreover have "degreeIndex degree \<le> 6" using degreeIndex_range [of degree] by simp
  ultimately show ?thesis
    using degreeIndex_range [of degree] degreeIndex_mod [of degree]
      getScaleDegreeNote_period [of root degree isMinor]
    by blast
qed

theorem getScaleDegreeNote_total_periodic_witness:
  "NOTE_TO_MIDI ''Eb'' \<noteq> None
   \<and> degreeIndex (- 9) = 4
   \<and> getScaleDegreeNote ''Eb'' (- 9) True = Inr (Some ''Bb'')
   \<and> getScaleDegreeNote ''Eb'' (- 2) True = Inr (Some ''Bb'')"
proof -
  have h: "NOTE_TO_MIDI ''Eb'' \<noteq> None" by code_simp
  have v: "getScaleDegreeNote ''Eb'' (- 9) True = Inr (Some ''Bb'')" by code_simp
  have d: "degreeIndex (- 9) = 4" by code_simp
  show ?thesis
    using getScaleDegreeNote_total_periodic [OF h, of "- 9" True] h v d by simp
qed

text \<open>
  C10. Whenever \<open>createChordProgression\<close> succeeds, every chord of the result is the list
  of labels of three pitches, each between 60 (C4) and 78 (F#5), so each a MIDI note
  number, and each with the displayed octave 4 or 5.
\<close>

theorem createChordProgression_pitch_bounds:
  assumes "createChordProgression key numChords = Inr chords"
  shows "\<forall>chord \<in> set chords. \<exists>pitches. chord = map noteLabel pitches \<and> length pitches = 3
           \<and> (\<forall>p \<in> set pitches. 60 \<le> p \<and> p \<le> 78 \<and> (p div 12 - 1 = 4 \<or> p div 12 - 1 = 5))"
proof
  fix chord assume chord: "chord \<in> set chords"
  obtain root isMinor progression
    where "addChords root isMinor progression = Inr chords"
    using createChordProgression_Inr [OF assms] by blast
  with chord obtain r i where r: "60 \<le> r" "r \<le> 71" and i: "i = 3 \<or> i = 4"
    and c: "chord = map noteLabel [r, r + i, r + 7]"
    using addChords_octave4 by blast
  have "\<forall>p \<in> set [r, r + i, r + 7]. 60 \<le> p \<and> p \<le> 78 \<and> (p div 12 - 1 = 4 \<or> p div 12 - 1 = 5)"
    using r i by auto
  then show "\<exists>pitches. chord = map noteLabel pitches \<and> length pitches = 3
           \<and> (\<forall>p \<in> set pitches. 60 \<le> p \<and> p \<le> 78 \<and> (p div 12 - 1 = 4 \<or> p div 12 - 1 = 5))"
    using c by (intro exI [of _ "[r, r + i, r + 7]"]) simp
qed

theorem createChordProgression_pitch_bounds_witness:
  "createChordProgression ''A minor'' 3 =
     Inr [[JStr ''A4'', JStr ''C5'', JStr ''E5''],
          [JStr ''D4'', JStr ''F4'', JStr ''A4''],
          [JStr ''E4'', JStr ''G4'', JStr ''B4'']]
   \<and> (\<exists>pitches. [JStr ''A4'', JStr ''C5'', JStr ''E5''] = map noteLabel pitches
         \<and> length pitches = 3
         \<and> (\<forall>p \<in> set pitches. 60 \<le> p \<and> p \<le> 78 \<and> (p div 12 - 1 = 4 \<or> p div 12 - 1 = 5)))"
proof -
  have a: "createChordProgression ''A minor'' 3 =
     Inr [[JStr ''A4'', JStr ''C5'', JStr ''E5''],
          [JStr ''D4'', JStr ''F4'', JStr ''A4''],
          [JStr ''E4'', JStr ''G4'', JStr ''B4'']]"
    by code_simp
  show ?thesis using createChordProgression_pitch_bounds [OF a] a by simp
qed

end
